theory Spec2Isabelle
  imports Main "HOL-Library.Word" "HOL-Library.Sublist"
begin

section \<open>The frame-sequencing reader of xzreader.c\<close>

text \<open>
  The reader drives two collaborators that are not part of the repository's sources:
  the buffered source of \<^verbatim>\<open>reada.h\<close> (\<^verbatim>\<open>struct fda\<close>, \<^verbatim>\<open>reada\<close>, \<^verbatim>\<open>peeka\<close>)
  and the decoder of \<^verbatim>\<open>lzma.h\<close> (\<^verbatim>\<open>lzma_stream\<close>, \<^verbatim>\<open>lzma_stream_decoder\<close>,
  \<^verbatim>\<open>lzma_code\<close>). Both are taken as parameters, collected in the record \<open>env\<close>;
  \<^verbatim>\<open>xzreader_begin\<close>, \<^verbatim>\<open>xzreader_open\<close>, \<^verbatim>\<open>xzreader_reopen\<close> and
  \<^verbatim>\<open>xzreader_read\<close> are translated over an arbitrary \<open>env\<close>. \<^verbatim>\<open>lzma_end\<close> and
  \<^verbatim>\<open>xzreader_free\<close> only release memory and have no counterpart here.

  Sizes (\<^verbatim>\<open>size_t\<close>) are natural numbers: the only subtractions of the source,
  \<^verbatim>\<open>end - avail_in\<close> and \<^verbatim>\<open>size - avail_out\<close>, stay in range when the decoder
  reports counts no larger than what it was given, which the theorems that depend on it
  assume explicitly. The count \<^verbatim>\<open>xzreader_read\<close> returns is a \<^verbatim>\<open>ssize_t\<close>;
  capacities are taken to fit it, as the size of every object does.
\<close>

subsection \<open>Data\<close>

type_synonym byte = "8 word"

text \<open>The return codes and actions of \<^verbatim>\<open>lzma.h\<close>.\<close>

datatype lzma_ret =
    LZMA_OK | LZMA_STREAM_END | LZMA_NO_CHECK | LZMA_UNSUPPORTED_CHECK | LZMA_GET_CHECK
  | LZMA_MEM_ERROR | LZMA_MEMLIMIT_ERROR | LZMA_FORMAT_ERROR | LZMA_OPTIONS_ERROR
  | LZMA_DATA_ERROR | LZMA_BUF_ERROR | LZMA_PROG_ERROR

datatype lzma_action = LZMA_RUN | LZMA_SYNC_FLUSH | LZMA_FULL_FLUSH | LZMA_FINISH

text \<open>
  \<^verbatim>\<open>struct fda\<close>: the descriptor with everything the source keeps private (\<open>fd\<close>), and
  the consumable window, kept as the bytes between \<^verbatim>\<open>cur\<close> and \<^verbatim>\<open>end\<close>. The
  assignment \<^verbatim>\<open>cur = end = NULL\<close> is the empty window.
\<close>

record 'd fda =
  fd :: 'd
  win :: "byte list"

text \<open>
  \<^verbatim>\<open>lzma_stream\<close>: the input window at \<^verbatim>\<open>next_in\<close>, the two counters the reader
  sets and reads back, and the decoder's private state. The bytes a call stores at
  \<^verbatim>\<open>next_out\<close> are returned by \<open>lzma_code\<close> beside the stream.
\<close>

record 's lzma_stream =
  next_in :: "byte list"
  avail_in :: nat
  avail_out :: nat
  internal :: 's

text \<open>\<^verbatim>\<open>struct xzreader\<close>; the field \<open>fda\<close> is the source the reader points to.\<close>

record ('s, 'd) xzreader =
  fda :: "'d fda"
  lzma :: "'s lzma_stream"
  eof :: bool

text \<open>
  What the macros \<^verbatim>\<open>ERRNO\<close>, \<^verbatim>\<open>ERRXZ\<close> and \<^verbatim>\<open>ERRSTR\<close> store in \<^verbatim>\<open>err[2]\<close>
  before \<^verbatim>\<open>-1\<close> is returned: the origin, and the errno, the decoder's code or the
  message. \<open>ABORT\<close> is a failed \<^verbatim>\<open>assert\<close>.
\<close>

datatype error =
    ERRNO string int
  | ERRXZ string lzma_ret
  | ERRSTR string string
  | ABORT string

text \<open>
  The collaborators. A source operation that returns a negative count and sets
  \<^verbatim>\<open>errno\<close> is \<open>Inl errno\<close>; \<open>reada\<close> returns the bytes it copied (their number is
  its return value), \<open>peeka\<close> the count alone, since the reader ignores the peeked bytes.
  \<open>malloc\<close> is \<open>None\<close> when the allocation of the reader succeeds and \<open>Some errno\<close>
  when it fails.
\<close>

record ('s, 'd) env =
  reada :: "'d fda \<Rightarrow> nat \<Rightarrow> (int + byte list) \<times> 'd fda"
  peeka :: "'d fda \<Rightarrow> nat \<Rightarrow> (int + nat) \<times> 'd fda"
  LZMA_STREAM_INIT :: "'s lzma_stream"
  lzma_stream_decoder :: "'s lzma_stream \<Rightarrow> nat \<Rightarrow> nat \<Rightarrow> lzma_ret \<times> 's lzma_stream"
  lzma_code :: "'s lzma_stream \<Rightarrow> lzma_action \<Rightarrow> lzma_ret \<times> byte list \<times> 's lzma_stream"
  malloc :: "int option"

subsection \<open>Constants and messages\<close>

definition LZMA_STREAM_HEADER_SIZE :: nat where
  "LZMA_STREAM_HEADER_SIZE = 12"

definition MEMLIMIT :: nat where
  "MEMLIMIT = push_bit 20 80"

fun lzma_strerror :: "lzma_ret \<Rightarrow> string" where
  "lzma_strerror LZMA_MEM_ERROR = ''Memory allocation failed''"
| "lzma_strerror LZMA_OPTIONS_ERROR = ''Unsupported decompressor flags''"
| "lzma_strerror LZMA_FORMAT_ERROR = ''The input is not in the .xz format''"
| "lzma_strerror LZMA_DATA_ERROR = ''Compressed file is corrupt''"
| "lzma_strerror LZMA_BUF_ERROR = ''Compressed file is truncated or otherwise corrupt''"
| "lzma_strerror _ = ''Unknown error, possibly a bug''"

subsection \<open>xzreader_begin\<close>

text \<open>
  Returns the code (\<open>Inr 1\<close>, \<open>Inr 0\<close>, or the error stored with \<^verbatim>\<open>-1\<close>), the
  stream and the source as the call leaves them.
\<close>

definition xzreader_begin ::
  "('s, 'd) env \<Rightarrow> 's lzma_stream \<Rightarrow> 'd fda \<Rightarrow> (error + int) \<times> 's lzma_stream \<times> 'd fda" where
  "xzreader_begin env l f =
     (case reada env f LZMA_STREAM_HEADER_SIZE of
        (Inl errno, f1) \<Rightarrow> (Inl (ERRNO ''read'' errno), l, f1)
      | (Inr buf, f1) \<Rightarrow>
          if length buf = 0 then (Inr 0, l, f1)
          else if length buf < LZMA_STREAM_HEADER_SIZE
            then (Inl (ERRSTR ''xzreader_begin'' ''input too small''), l, f1)
          else
            (case lzma_code env
                    (l\<lparr>next_in := buf, avail_in := LZMA_STREAM_HEADER_SIZE, avail_out := 0\<rparr>)
                    LZMA_RUN of
               (zret, wr, l1) \<Rightarrow>
                 if zret \<noteq> LZMA_OK then (Inl (ERRXZ ''lzma_code'' zret), l1, f1)
                 else if avail_in l1 \<noteq> 0 then (Inl (ABORT ''lzma->avail_in == 0''), l1, f1)
                 else (Inr 1, l1, f1)))"

subsection \<open>xzreader_open\<close>

text \<open>
  \<open>zp\<close> is the content of the caller's handle variable before the call; the result
  holds the code, the content of the handle variable after the call, and the source.
\<close>

definition xzreader_open ::
  "('s, 'd) env \<Rightarrow> ('s, 'd) xzreader option \<Rightarrow> 'd fda
     \<Rightarrow> (error + int) \<times> ('s, 'd) xzreader option \<times> 'd fda" where
  "xzreader_open env zp f =
     (case lzma_stream_decoder env (LZMA_STREAM_INIT env) MEMLIMIT 0 of
        (zret, l) \<Rightarrow>
          if zret \<noteq> LZMA_OK then (Inl (ERRXZ ''lzma_stream_decoder'' zret), zp, f)
          else
            (case xzreader_begin env l f of
               (Inl e, l1, f1) \<Rightarrow> (Inl e, zp, f1)
             | (Inr rc, l1, f1) \<Rightarrow>
                 if rc \<le> 0 then (Inr rc, zp, f1)
                 else
                   (case malloc env of
                      Some errno \<Rightarrow> (Inl (ERRNO ''malloc'' errno), zp, f1)
                    | None \<Rightarrow>
                        (Inr 1, Some \<lparr>fda = f1, lzma = l1, eof = False\<rparr>, f1))))"

subsection \<open>xzreader_reopen\<close>

text \<open>The second argument is \<open>None\<close> for a \<^verbatim>\<open>NULL\<close> source, which keeps the previous one.\<close>

definition xzreader_reopen ::
  "('s, 'd) env \<Rightarrow> ('s, 'd) xzreader \<Rightarrow> 'd fda option \<Rightarrow> (error + int) \<times> ('s, 'd) xzreader" where
  "xzreader_reopen env z fo =
     (let z1 = (case fo of Some f \<Rightarrow> z\<lparr>fda := f\<rparr> | None \<Rightarrow> z);
          (zret, z2) =
            (if \<not> eof z1 then
               (case lzma_stream_decoder env (LZMA_STREAM_INIT env) MEMLIMIT 0 of
                  (zret, l) \<Rightarrow> (zret, z1\<lparr>lzma := l\<rparr>))
             else (LZMA_OK, z1))
      in if zret \<noteq> LZMA_OK then (Inl (ERRXZ ''lzma_stream_decoder'' zret), z2)
         else
           (case xzreader_begin env (lzma z2) (fda z2) of
              (rc, l1, f1) \<Rightarrow> (rc, z2\<lparr>fda := f1, lzma := l1, eof := False\<rparr>)))"

subsection \<open>xzreader_read\<close>

text \<open>
  One pass through the body of the \<^verbatim>\<open>do ... while\<close> loop, for the remaining capacity
  \<open>sz\<close>: the result is the error or the number \<open>n\<close> of bytes recovered, the reader,
  and the bytes the decoder stored into the destination during the pass.
\<close>

definition read_iter ::
  "('s, 'd) env \<Rightarrow> ('s, 'd) xzreader \<Rightarrow> nat \<Rightarrow> (error + nat) \<times> ('s, 'd) xzreader \<times> byte list" where
  "read_iter env z sz =
     (case peeka env (fda z) 4 of
        (Inl errno, f1) \<Rightarrow> (Inl (ERRNO ''read'' errno), z\<lparr>fda := f1\<rparr>, [])
      | (Inr ret, f1) \<Rightarrow>
          if ret = 0 then (Inl (ERRSTR ''xzreader_read'' ''unexpected EOF''), z\<lparr>fda := f1\<rparr>, [])
          else
            (case lzma_code env
                    ((lzma z)\<lparr>next_in := win f1, avail_in := length (win f1), avail_out := sz\<rparr>)
                    LZMA_RUN of
               (zret, wr, l1) \<Rightarrow>
                 if zret \<noteq> LZMA_STREAM_END \<and> zret \<noteq> LZMA_OK
                   then (Inl (ERRXZ ''lzma_code'' zret), z\<lparr>fda := f1, lzma := l1\<rparr>, wr)
                 else
                   (let f2 = (if avail_in l1 \<noteq> 0
                              then f1\<lparr>win := drop (length (win f1) - avail_in l1) (win f1)\<rparr>
                              else f1\<lparr>win := []\<rparr>);
                        n = sz - avail_out l1
                    in (Inr n,
                        z\<lparr>fda := f2, lzma := l1, eof := (zret = LZMA_STREAM_END \<or> eof z)\<rparr>,
                        wr))))"

text \<open>
  The loop: \<open>tot\<close> is the count so far and \<open>out\<close> the bytes stored into the
  destination so far. The loop runs on while capacity remains and the frame is not
  complete; nothing in the source bounds the number of passes, so the result is optional.
  On an error the count is dropped; the reader and the destination are returned as they
  are at that moment.
\<close>

partial_function (option) read_loop ::
  "('s, 'd) env \<Rightarrow> ('s, 'd) xzreader \<Rightarrow> nat \<Rightarrow> nat \<Rightarrow> byte list
     \<Rightarrow> ((error + nat) \<times> ('s, 'd) xzreader \<times> byte list) option" where
  "read_loop env z sz tot out =
     (case read_iter env z sz of
        (Inl e, z1, wr) \<Rightarrow> Some (Inl e, z1, out @ wr)
      | (Inr n, z1, wr) \<Rightarrow>
          if avail_out (lzma z1) \<noteq> 0 \<and> \<not> eof z1
            then read_loop env z1 (avail_out (lzma z1)) (tot + n) (out @ wr)
          else Some (Inr (tot + n), z1, out @ wr))"

definition xzreader_read ::
  "('s, 'd) env \<Rightarrow> ('s, 'd) xzreader \<Rightarrow> nat
     \<Rightarrow> ((error + nat) \<times> ('s, 'd) xzreader \<times> byte list) option" where
  "xzreader_read env z sz =
     (if eof z then Some (Inr 0, z, [])
      else if \<not> 0 < sz then Some (Inl (ABORT ''size > 0''), z, [])
      else read_loop env z sz 0 [])"

text \<open>
  The states of the loop of \<^verbatim>\<open>xzreader_read\<close> (reader, remaining capacity, count,
  destination) at the start of its passes: \<open>passes env s t\<close> holds when the loop, started
  in \<open>s\<close>, reaches \<open>t\<close> after one or more passes that each return a count and go on.
\<close>

inductive passes ::
  "('s, 'd) env \<Rightarrow> ('s, 'd) xzreader \<times> nat \<times> nat \<times> byte list
     \<Rightarrow> ('s, 'd) xzreader \<times> nat \<times> nat \<times> byte list \<Rightarrow> bool"
  for env :: "('s, 'd) env" where
  pass_first: "read_iter env z sz = (Inr n, z1, wr) \<Longrightarrow> avail_out (lzma z1) \<noteq> 0 \<Longrightarrow> \<not> eof z1 \<Longrightarrow>
          passes env (z, sz, tot, out) (z1, avail_out (lzma z1), tot + n, out @ wr)"
| pass_next: "passes env s (z, sz, tot, out) \<Longrightarrow>
         read_iter env z sz = (Inr n, z1, wr) \<Longrightarrow> avail_out (lzma z1) \<noteq> 0 \<Longrightarrow> \<not> eof z1 \<Longrightarrow>
         passes env s (z1, avail_out (lzma z1), tot + n, out @ wr)"

subsection \<open>The read loop of main.c\<close>

text \<open>
  \<^verbatim>\<open>while ((ret = xzreader_read(z, buf, sizeof buf, err)) > 0) fwrite(buf, 1, ret, stdout);\<close>
  with \<open>sz\<close> for \<^verbatim>\<open>sizeof buf\<close> and \<open>stdout\<close> for the bytes written so far. The
  result is the error of the failing read, if any, the reader, and the bytes written.
\<close>

partial_function (option) main_read_loop ::
  "('s, 'd) env \<Rightarrow> ('s, 'd) xzreader \<Rightarrow> nat \<Rightarrow> byte list
     \<Rightarrow> (error option \<times> ('s, 'd) xzreader \<times> byte list) option" where
  "main_read_loop env z sz stdout =
     (case xzreader_read env z sz of
        None \<Rightarrow> None
      | Some (Inl e, z1, buf) \<Rightarrow> Some (Some e, z1, stdout)
      | Some (Inr ret, z1, buf) \<Rightarrow>
          if 0 < ret then main_read_loop env z1 sz (stdout @ take ret buf)
          else Some (None, z1, stdout))"

subsection \<open>What the reader expects of its collaborators\<close>

text \<open>
  The predicates of this subsection are hypotheses of theorems, never part of the
  translated functions. They state the capability contracts under which the reader is
  specified to work, for the collaborators whose code is in \<^verbatim>\<open>reada.h\<close> and liblzma.
\<close>

text \<open>
  Modelled from the spec: the bytes of a source that are not consumed yet. They are its
  window, then the bytes the descriptor still holds, which \<open>rest\<close> reads off the
  private part.
\<close>

definition stream :: "('d \<Rightarrow> byte list) \<Rightarrow> 'd fda \<Rightarrow> byte list" where
  "stream rest f = win f @ rest (fd f)"

text \<open>
  Modelled from the spec: the contract of the buffered source (\<^verbatim>\<open>reada.h\<close> is not
  among the sources), for a descriptor whose reads do not fail. \<open>peeka\<close> makes \<open>n\<close>
  bytes visible, or all that is left when fewer remain, and consumes nothing; \<open>reada\<close>
  copies and consumes the next \<open>n\<close> bytes, or all that is left.
\<close>

definition source_ok :: "('s, 'd) env \<Rightarrow> ('d \<Rightarrow> byte list) \<Rightarrow> bool" where
  "source_ok env rest \<longleftrightarrow>
     (\<forall>f n. 0 < n \<longrightarrow>
        (\<exists>f'. peeka env f n = (Inr (min n (length (stream rest f))), f') \<and>
              stream rest f' = stream rest f \<and>
              min n (length (stream rest f)) \<le> length (win f'))) \<and>
     (\<forall>f n. 0 < n \<longrightarrow>
        (\<exists>f'. reada env f n = (Inr (take n (stream rest f)), f') \<and>
              stream rest f' = drop n (stream rest f)))"


text \<open>
  Modelled from the spec: the contract of the decoder (liblzma is not among the sources)
  on the frames it decodes. \<open>R l rc rp\<close> reads: the stream \<open>l\<close> is inside a frame
  of which the compressed bytes \<open>rc\<close> are still to be consumed and the content \<open>rp\<close>
  is still to be produced. Offered a nonempty window that agrees with \<open>rc\<close> as far as
  both go, and some output space, the decoder consumes no byte beyond \<open>rc\<close>, stores the
  next bytes of \<open>rp\<close>, makes progress, and returns \<open>LZMA_STREAM_END\<close> exactly when it has
  consumed the last byte of \<open>rc\<close>, all of \<open>rp\<close> being stored by then.
\<close>

definition engine_ok ::
  "('s, 'd) env \<Rightarrow> ('s lzma_stream \<Rightarrow> byte list \<Rightarrow> byte list \<Rightarrow> bool) \<Rightarrow> bool" where
  "engine_ok env R \<longleftrightarrow>
     (\<forall>l rc rp. R l rc rp \<longrightarrow> rc \<noteq> []) \<and>
     (\<forall>l rc rp w k zret wr l1.
        R l rc rp \<and> w \<noteq> [] \<and> 0 < k \<and> (prefix w rc \<or> prefix rc w) \<and>
        lzma_code env (l\<lparr>next_in := w, avail_in := length w, avail_out := k\<rparr>) LZMA_RUN
          = (zret, wr, l1) \<longrightarrow>
        avail_in l1 \<le> length w \<and> avail_out l1 \<le> k \<and>
        length wr = k - avail_out l1 \<and>
        length w - avail_in l1 \<le> length rc \<and>
        prefix wr rp \<and>
        (0 < length w - avail_in l1 \<or> wr \<noteq> []) \<and>
        (if length w - avail_in l1 = length rc
         then zret = LZMA_STREAM_END \<and> wr = rp
         else zret = LZMA_OK \<and>
              R l1 (drop (length w - avail_in l1) rc) (drop (length wr) rp)))"

text \<open>
  Modelled from the spec: \<open>c\<close> is a frame with content \<open>p\<close> that the stream \<open>l\<close> is
  ready for. Fed the header of \<open>c\<close> and no output space, the decoder consumes it,
  returns \<open>LZMA_OK\<close> and is inside the frame.
\<close>

definition accepts ::
  "('s, 'd) env \<Rightarrow> ('s lzma_stream \<Rightarrow> byte list \<Rightarrow> byte list \<Rightarrow> bool)
     \<Rightarrow> 's lzma_stream \<Rightarrow> byte list \<Rightarrow> byte list \<Rightarrow> bool" where
  "accepts env R l c p \<longleftrightarrow>
     LZMA_STREAM_HEADER_SIZE \<le> length c \<and>
     (\<forall>zret wr l1.
        lzma_code env
          (l\<lparr>next_in := take LZMA_STREAM_HEADER_SIZE c,
             avail_in := LZMA_STREAM_HEADER_SIZE, avail_out := 0\<rparr>) LZMA_RUN = (zret, wr, l1) \<longrightarrow>
        zret = LZMA_OK \<and> avail_in l1 = 0 \<and> R l1 (drop LZMA_STREAM_HEADER_SIZE c) p)"

text \<open>
  Modelled from the spec: whatever state the stream \<open>l\<close> is in, if the decoder answers
  \<open>LZMA_OK\<close> to the header of the frame \<open>c\<close> and consumes it, it is inside that
  frame. A decoder that refuses the header meets this trivially.
\<close>

definition header_sound ::
  "('s, 'd) env \<Rightarrow> ('s lzma_stream \<Rightarrow> byte list \<Rightarrow> byte list \<Rightarrow> bool)
     \<Rightarrow> 's lzma_stream \<Rightarrow> byte list \<Rightarrow> byte list \<Rightarrow> bool" where
  "header_sound env R l c p \<longleftrightarrow>
     (\<forall>zret wr l1.
        lzma_code env
          (l\<lparr>next_in := take LZMA_STREAM_HEADER_SIZE c,
             avail_in := LZMA_STREAM_HEADER_SIZE, avail_out := 0\<rparr>) LZMA_RUN = (zret, wr, l1) \<and>
        zret = LZMA_OK \<and> avail_in l1 = 0 \<longrightarrow>
        R l1 (drop LZMA_STREAM_HEADER_SIZE c) p)"

subsection \<open>A small source and decoder to run the reader on\<close>

text \<open>
  The definitions of this subsection are not translated from the sources. They are one
  source and one decoder that meet the contracts above, on which the translated
  functions are run in the concrete instances that follow the theorems; nothing is
  stated about \<^verbatim>\<open>reada.h\<close> or liblzma through them.

  The source holds the bytes of its descriptor; a refill moves all of them into the
  window, so that the window reaches beyond the frame being read whenever more follows.
\<close>

definition demo_peeka :: "byte list fda \<Rightarrow> nat \<Rightarrow> (int + nat) \<times> byte list fda" where
  "demo_peeka f n =
     (if n \<le> length (win f) then (Inr n, f)
      else (Inr (min n (length (win f @ fd f))), f\<lparr>win := win f @ fd f, fd := []\<rparr>))"

definition demo_reada :: "byte list fda \<Rightarrow> nat \<Rightarrow> (int + byte list) \<times> byte list fda" where
  "demo_reada f n =
     (if n \<le> length (win f) then (Inr (take n (win f)), f\<lparr>win := drop n (win f)\<rparr>)
      else (Inr (take n (win f @ fd f)), f\<lparr>win := [], fd := drop (n - length (win f)) (fd f)\<rparr>))"

text \<open>
  The frame format of the decoder: twelve header bytes, then each content byte after a
  byte 1, then a byte 0. The decoder takes one step per call. Once a frame is complete
  it answers \<open>LZMA_STREAM_END\<close> to every further call, and so decodes one frame only.
\<close>

datatype demo_state = Fresh | Body | Lit | Done | Bad

definition demo_magic :: "byte list" where
  "demo_magic = [0xFD, 0x37, 0x7A, 0x58, 0x5A, 0x00, 0, 0, 0, 0, 0, 0]"

fun demo_enc :: "byte list \<Rightarrow> byte list" where
  "demo_enc [] = [0]"
| "demo_enc (a # p) = 1 # a # demo_enc p"

definition demo_header ::
  "demo_state lzma_stream \<Rightarrow> lzma_ret \<times> byte list \<times> demo_state lzma_stream" where
  "demo_header l =
     (if LZMA_STREAM_HEADER_SIZE \<le> avail_in l \<and>
         take LZMA_STREAM_HEADER_SIZE (next_in l) = demo_magic
      then (LZMA_OK, [],
            l\<lparr>next_in := drop LZMA_STREAM_HEADER_SIZE (next_in l),
              avail_in := avail_in l - LZMA_STREAM_HEADER_SIZE, internal := Body\<rparr>)
      else (LZMA_FORMAT_ERROR, [], l\<lparr>internal := Bad\<rparr>))"

definition demo_code ::
  "demo_state lzma_stream \<Rightarrow> lzma_action \<Rightarrow> lzma_ret \<times> byte list \<times> demo_state lzma_stream" where
  "demo_code l a =
     (case internal l of
        Bad \<Rightarrow> (LZMA_PROG_ERROR, [], l)
      | Fresh \<Rightarrow> demo_header l
      | Done \<Rightarrow> (LZMA_STREAM_END, [], l)
      | Body \<Rightarrow>
          (case take (avail_in l) (next_in l) of
             [] \<Rightarrow> (LZMA_OK, [], l)
           | x # xs \<Rightarrow>
               (let l1 = l\<lparr>next_in := tl (next_in l), avail_in := avail_in l - 1\<rparr>
                in if x = 0 then (LZMA_STREAM_END, [], l1\<lparr>internal := Done\<rparr>)
                   else if x = 1 then (LZMA_OK, [], l1\<lparr>internal := Lit\<rparr>)
                   else (LZMA_DATA_ERROR, [], l1\<lparr>internal := Bad\<rparr>)))
      | Lit \<Rightarrow>
          (case take (avail_in l) (next_in l) of
             [] \<Rightarrow> (LZMA_OK, [], l)
           | x # xs \<Rightarrow>
               if avail_out l = 0 then (LZMA_OK, [], l)
               else (LZMA_OK, [x],
                     l\<lparr>next_in := tl (next_in l), avail_in := avail_in l - 1,
                       avail_out := avail_out l - 1, internal := Body\<rparr>)))"

definition demo_R :: "demo_state lzma_stream \<Rightarrow> byte list \<Rightarrow> byte list \<Rightarrow> bool" where
  "demo_R l rc rp \<longleftrightarrow>
     (internal l = Body \<and> rc = demo_enc rp) \<or>
     (internal l = Lit \<and> rp \<noteq> [] \<and> rc = hd rp # demo_enc (tl rp))"

definition demo_init :: "demo_state lzma_stream" where
  "demo_init = \<lparr>next_in = [], avail_in = 0, avail_out = 0, internal = Fresh\<rparr>"

definition demo_env :: "(demo_state, byte list) env" where
  "demo_env =
     \<lparr>reada = demo_reada, peeka = demo_peeka, LZMA_STREAM_INIT = demo_init,
      lzma_stream_decoder = (\<lambda>l memlimit flags. (LZMA_OK, l\<lparr>internal := Fresh\<rparr>)),
      lzma_code = demo_code, malloc = None\<rparr>"

definition demo_src :: "byte list \<Rightarrow> byte list fda" where
  "demo_src bs = \<lparr>fd = bs, win = []\<rparr>"

definition demo_frame :: "byte list \<Rightarrow> byte list" where
  "demo_frame p = demo_magic @ demo_enc p"

text \<open>The same with an allocation that fails (errno 12).\<close>

definition demo_env_nomem :: "(demo_state, byte list) env" where
  "demo_env_nomem = demo_env\<lparr>malloc := Some 12\<rparr>"

text \<open>Readers to run the functions on: one whose frame is complete, one inside a
  frame with the bytes \<open>bs\<close> left in its source, one whose decoder is unusable.\<close>

definition demo_done :: "(demo_state, byte list) xzreader" where
  "demo_done =
     \<lparr>fda = demo_src (demo_frame []), lzma = demo_init\<lparr>internal := Done\<rparr>, eof = True\<rparr>"

definition demo_mid :: "byte list \<Rightarrow> (demo_state, byte list) xzreader" where
  "demo_mid bs = \<lparr>fda = demo_src bs, lzma = demo_init\<lparr>internal := Body\<rparr>, eof = False\<rparr>"

definition demo_stale :: "bool \<Rightarrow> (demo_state, byte list) xzreader" where
  "demo_stale e =
     \<lparr>fda = demo_src (demo_frame []), lzma = demo_init\<lparr>internal := Bad\<rparr>, eof = e\<rparr>"

text \<open>
  Three frames in one source, and the reader as it is after open and the read loop of
  main.c with capacity 4 have read the first of them.
\<close>

definition demo_three :: "byte list" where
  "demo_three = demo_frame [65] @ demo_frame [66] @ demo_frame [67]"

definition demo_drained :: "(demo_state, byte list) xzreader" where
  "demo_drained =
     \<lparr>fda = \<lparr>fd = [], win = demo_frame [66] @ demo_frame [67]\<rparr>,
      lzma = \<lparr>next_in = demo_frame [66] @ demo_frame [67], avail_in = 30, avail_out = 3,
              internal = Done\<rparr>,
      eof = True\<rparr>"

section \<open>Auxiliary facts\<close>

lemmas demo_defs =
  demo_env_def demo_env_nomem_def demo_reada_def demo_peeka_def demo_code_def
  demo_header_def demo_init_def demo_magic_def demo_src_def demo_frame_def
  LZMA_STREAM_HEADER_SIZE_def MEMLIMIT_def demo_done_def demo_mid_def demo_stale_def
  demo_three_def demo_drained_def

lemma begin_code:
  "xzreader_begin env l f = (r, l1, f1) \<Longrightarrow> r = Inr 0 \<or> r = Inr 1 \<or> (\<exists>e. r = Inl e)"
  by (auto simp: xzreader_begin_def split: prod.splits sum.splits if_splits)

lemma read_iter_eof:
  "peeka env (fda z) 4 = (Inr 0, f1) \<Longrightarrow>
   read_iter env z sz = (Inl (ERRSTR ''xzreader_read'' ''unexpected EOF''), z\<lparr>fda := f1\<rparr>, [])"
  by (simp add: read_iter_def)




text \<open>The loop only appends to the destination.\<close>

lemma read_loop_prefix:
  assumes "read_loop env z sz tot out = Some y"
  shows "prefix out (snd (snd y))"
  using assms
proof (induction rule: read_loop.raw_induct [rotated 1, consumes 1])
  case (1 read_loop env z sz tot out y)
  show ?case
  proof (cases "read_iter env z sz")
    case (fields r z1 wr)
    show ?thesis
    proof (cases r)
      case (Inl e)
      with fields 1(2) show ?thesis by auto
    next
      case (Inr n)
      show ?thesis
      proof (cases "avail_out (lzma z1) \<noteq> 0 \<and> \<not> eof z1")
        case True
        with fields Inr 1(2)
        have "read_loop env z1 (avail_out (lzma z1)) (tot + n) (out @ wr) = Some y" by simp
        from 1(1) [OF this] show ?thesis by (rule append_prefixD)
      next
        case False
        with fields Inr 1(2) show ?thesis by auto
      qed
    qed
  qed
qed





text \<open>Consequences of the contracts, in the form the proofs use.\<close>

lemma append_eq_prefix_cases:
  assumes "w @ r = rc @ t"
  shows "prefix w rc \<or> prefix rc w"
  using assms by (auto simp: append_eq_append_conv2 prefix_def)

lemma source_ok_peeka:
  assumes "source_ok env rest" and "0 < n"
  obtains f' where "peeka env f n = (Inr (min n (length (stream rest f))), f')"
    and "stream rest f' = stream rest f"
    and "min n (length (stream rest f)) \<le> length (win f')"
  using assms unfolding source_ok_def by blast

lemma source_ok_reada:
  assumes "source_ok env rest" and "0 < n"
  obtains f' where "reada env f n = (Inr (take n (stream rest f)), f')"
    and "stream rest f' = drop n (stream rest f)"
  using assms unfolding source_ok_def by blast

lemma engine_ok_nonempty: "engine_ok env R \<Longrightarrow> R l rc rp \<Longrightarrow> rc \<noteq> []"
  unfolding engine_ok_def by blast

lemma engine_ok_step:
  assumes "engine_ok env R" and "R l rc rp" and "w \<noteq> []" and "0 < k"
      and "prefix w rc \<or> prefix rc w"
      and "lzma_code env (l\<lparr>next_in := w, avail_in := length w, avail_out := k\<rparr>) LZMA_RUN
             = (zret, wr, l1)"
  shows "avail_in l1 \<le> length w" "avail_out l1 \<le> k" "length wr = k - avail_out l1"
        "length w - avail_in l1 \<le> length rc" "prefix wr rp"
        "0 < length w - avail_in l1 \<or> wr \<noteq> []"
        "length w - avail_in l1 = length rc \<Longrightarrow> zret = LZMA_STREAM_END \<and> wr = rp"
        "length w - avail_in l1 \<noteq> length rc \<Longrightarrow>
           zret = LZMA_OK \<and> R l1 (drop (length w - avail_in l1) rc) (drop (length wr) rp)"
proof -
  from assms have H:
    "avail_in l1 \<le> length w \<and> avail_out l1 \<le> k \<and>
        length wr = k - avail_out l1 \<and>
        length w - avail_in l1 \<le> length rc \<and>
        prefix wr rp \<and>
        (0 < length w - avail_in l1 \<or> wr \<noteq> []) \<and>
        (if length w - avail_in l1 = length rc
         then zret = LZMA_STREAM_END \<and> wr = rp
         else zret = LZMA_OK \<and>
              R l1 (drop (length w - avail_in l1) rc) (drop (length wr) rp))"
    unfolding engine_ok_def by blast
  then show "avail_in l1 \<le> length w" "avail_out l1 \<le> k" "length wr = k - avail_out l1"
        "length w - avail_in l1 \<le> length rc" "prefix wr rp"
        "0 < length w - avail_in l1 \<or> wr \<noteq> []"
    by blast+
  from H have I: "if length w - avail_in l1 = length rc
         then zret = LZMA_STREAM_END \<and> wr = rp
         else zret = LZMA_OK \<and>
              R l1 (drop (length w - avail_in l1) rc) (drop (length wr) rp)"
    by blast
  show "length w - avail_in l1 = length rc \<Longrightarrow> zret = LZMA_STREAM_END \<and> wr = rp"
    using I by (simp only: if_P)
  show "length w - avail_in l1 \<noteq> length rc \<Longrightarrow>
           zret = LZMA_OK \<and> R l1 (drop (length w - avail_in l1) rc) (drop (length wr) rp)"
    using I by (simp only: if_False)
qed

lemma read_iter_frame:
  assumes eng: "engine_ok env R" and src: "source_ok env rest"
      and R: "R (lzma z) rc rp" and st: "stream rest (fda z) = rc @ after" and sz: "0 < sz"
  shows "\<exists>wr z1 c. read_iter env z sz = (Inr (length wr), z1, wr) \<and>
           prefix wr rp \<and> length wr \<le> sz \<and> avail_out (lzma z1) = sz - length wr \<and>
           c \<le> length rc \<and> stream rest (fda z1) = drop c rc @ after \<and>
           (0 < c \<or> wr \<noteq> []) \<and>
           (c = length rc \<longrightarrow> eof z1 \<and> wr = rp) \<and>
           (c \<noteq> length rc \<longrightarrow>
              eof z1 = eof z \<and> R (lzma z1) (drop c rc) (drop (length wr) rp))"
proof -
  from engine_ok_nonempty [OF eng R] have rc: "rc \<noteq> []" .
  obtain f1 where pk: "peeka env (fda z) 4 = (Inr (min 4 (length (stream rest (fda z)))), f1)"
    and st1: "stream rest f1 = stream rest (fda z)"
    and vis: "min 4 (length (stream rest (fda z))) \<le> length (win f1)"
    using source_ok_peeka [OF src, of 4 "fda z"] by auto
  let ?w = "win f1"
  from rc st have ret: "min 4 (length (stream rest (fda z))) \<noteq> 0" by simp
  with vis have w: "?w \<noteq> []" by (auto simp: min_def split: if_splits)
  from st1 st have weq: "?w @ rest (fd f1) = rc @ after" by (simp add: stream_def)
  then have compat: "prefix ?w rc \<or> prefix rc ?w" by (rule append_eq_prefix_cases)
  obtain zret wr l1 where code:
    "lzma_code env ((lzma z)\<lparr>next_in := ?w, avail_in := length ?w, avail_out := sz\<rparr>) LZMA_RUN
       = (zret, wr, l1)"
    by (cases "lzma_code env ((lzma z)\<lparr>next_in := ?w, avail_in := length ?w, avail_out := sz\<rparr>) LZMA_RUN")
  note e = engine_ok_step [OF eng R w sz compat code]
  let ?c = "length ?w - avail_in l1"
  let ?f2 = "if avail_in l1 \<noteq> 0 then f1\<lparr>win := drop ?c ?w\<rparr> else f1\<lparr>win := []\<rparr>"
  let ?z1 = "z\<lparr>fda := ?f2, lzma := l1, eof := (zret = LZMA_STREAM_END \<or> eof z)\<rparr>"
  have zr: "zret = LZMA_OK \<or> zret = LZMA_STREAM_END"
    using e(7,8) by (cases "?c = length rc") auto
  have n: "sz - avail_out l1 = length wr" using e(3) by simp
  have it: "read_iter env z sz = (Inr (length wr), ?z1, wr)"
    using pk ret code zr n by (auto simp: read_iter_def Let_def)
  have win2: "win ?f2 = drop ?c ?w" using e(1) by auto
  have fd2: "fd ?f2 = fd f1" by simp
  have "stream rest ?f2 = drop ?c ?w @ rest (fd f1)"
    unfolding stream_def win2 fd2 ..
  also have "\<dots> = drop ?c (?w @ rest (fd f1))" by simp
  also have "\<dots> = drop ?c rc @ after" using weq e(4) by simp
  finally have st2: "stream rest (fda ?z1) = drop ?c rc @ after" by simp
  have len: "length wr \<le> sz" using e(3) by simp
  have ao: "avail_out (lzma ?z1) = sz - length wr" using e(2,3) by simp
  have fin1: "?c = length rc \<longrightarrow> eof ?z1 \<and> wr = rp"
    using e(7) by simp
  have fin2: "?c \<noteq> length rc \<longrightarrow>
            eof ?z1 = eof z \<and> R (lzma ?z1) (drop ?c rc) (drop (length wr) rp)"
    using e(8) by simp
  from it e(5) len ao e(4) st2 e(6) fin1 fin2 show ?thesis by blast
qed

text \<open>
  The read loop inside a frame, by induction on what is left of the frame: it returns a
  count, having stored the next bytes of the content, and either completes the frame or
  fills the destination.
\<close>

lemma read_loop_frame:
  assumes eng: "engine_ok env R" and src: "source_ok env rest"
  shows "R (lzma z) rc rp \<Longrightarrow> stream rest (fda z) = rc @ after \<Longrightarrow> 0 < sz \<Longrightarrow> \<not> eof z \<Longrightarrow>
         \<exists>wr z1 c. read_loop env z sz tot out = Some (Inr (tot + length wr), z1, out @ wr) \<and>
           prefix wr rp \<and> length wr \<le> sz \<and> c \<le> length rc \<and>
           stream rest (fda z1) = drop c rc @ after \<and>
           (c = length rc \<longrightarrow> eof z1 \<and> wr = rp) \<and>
           (c \<noteq> length rc \<longrightarrow>
              \<not> eof z1 \<and> length wr = sz \<and> R (lzma z1) (drop c rc) (drop (length wr) rp))"
proof (induction "length rc + length rp" arbitrary: z rc rp sz tot out rule: less_induct)
  case less
  from read_iter_frame [OF eng src less.prems(1,2,3)]
  obtain wr z1 c where it: "read_iter env z sz = (Inr (length wr), z1, wr)"
    and pre: "prefix wr rp" and len: "length wr \<le> sz"
    and ao: "avail_out (lzma z1) = sz - length wr"
    and c: "c \<le> length rc" and st: "stream rest (fda z1) = drop c rc @ after"
    and prog: "0 < c \<or> wr \<noteq> []"
    and fin1: "c = length rc \<longrightarrow> eof z1 \<and> wr = rp"
    and fin2: "c \<noteq> length rc \<longrightarrow>
                 eof z1 = eof z \<and> R (lzma z1) (drop c rc) (drop (length wr) rp)"
    by blast
  show ?case
  proof (cases "avail_out (lzma z1) \<noteq> 0 \<and> \<not> eof z1")
    case False
    then have stop: "read_loop env z sz tot out = Some (Inr (tot + length wr), z1, out @ wr)"
      by (subst read_loop.simps) (auto simp: it)
    have full: "c \<noteq> length rc \<longrightarrow> length wr = sz"
      using fin2 False ao len less.prems(4) by auto
    have ne: "c \<noteq> length rc \<longrightarrow> \<not> eof z1"
      using fin2 less.prems(4) by simp
    from stop pre len c st fin1 fin2 full ne show ?thesis by blast
  next
    case True
    then have go: "read_loop env z sz tot out =
                   read_loop env z1 (sz - length wr) (tot + length wr) (out @ wr)"
      by (subst read_loop.simps) (simp add: it ao)
    from True fin1 have ne: "c \<noteq> length rc" by auto
    with fin2 have R1: "R (lzma z1) (drop c rc) (drop (length wr) rp)" by simp
    from True ao have sz1: "0 < sz - length wr" by simp
    from True have ne1: "\<not> eof z1" by simp
    from pre have lwr: "length wr \<le> length rp" by (rule prefix_length_le)
    from prog have "0 < c + length wr" by auto
    with c lwr
    have dec: "length (drop c rc) + length (drop (length wr) rp) < length rc + length rp"
      unfolding length_drop by linarith
    from less.hyps [OF dec R1 st sz1 ne1, of "tot + length wr" "out @ wr"]
    obtain wr' z2 c' where
      res: "read_loop env z1 (sz - length wr) (tot + length wr) (out @ wr) =
              Some (Inr (tot + length wr + length wr'), z2, (out @ wr) @ wr')"
      and pre': "prefix wr' (drop (length wr) rp)" and len': "length wr' \<le> sz - length wr"
      and c': "c' \<le> length (drop c rc)"
      and st': "stream rest (fda z2) = drop c' (drop c rc) @ after"
      and fin1': "c' = length (drop c rc) \<longrightarrow> eof z2 \<and> wr' = drop (length wr) rp"
      and fin2': "c' \<noteq> length (drop c rc) \<longrightarrow>
                 \<not> eof z2 \<and> length wr' = sz - length wr \<and>
                 R (lzma z2) (drop c' (drop c rc)) (drop (length wr') (drop (length wr) rp))"
      by blast
    from pre obtain r1 where rp: "rp = wr @ r1" by (auto simp: prefix_def)
    have a: "read_loop env z sz tot out =
               Some (Inr (tot + length (wr @ wr')), z2, out @ (wr @ wr'))"
      using go res by (simp add: add.assoc)
    have b: "prefix (wr @ wr') rp" using pre' rp by simp
    have d: "length (wr @ wr') \<le> sz" using len len' by simp
    have e: "c + c' \<le> length rc" using c c' by simp
    have f: "stream rest (fda z2) = drop (c + c') rc @ after" using st' by (simp add: add.commute)
    have g1: "c + c' = length rc \<longrightarrow> eof z2 \<and> wr @ wr' = rp"
      using fin1' c rp by auto
    have g2: "c + c' \<noteq> length rc \<longrightarrow>
                \<not> eof z2 \<and> length (wr @ wr') = sz \<and>
                R (lzma z2) (drop (c + c') rc) (drop (length (wr @ wr')) rp)"
      using fin2' c len rp by (auto simp: add.commute)
    from a b d e f g1 g2 show ?thesis by blast
  qed
qed

lemma read_frame:
  assumes eng: "engine_ok env R" and src: "source_ok env rest"
      and "R (lzma z) rc rp" "stream rest (fda z) = rc @ after" "0 < sz" "\<not> eof z"
  shows "\<exists>wr z1 c. xzreader_read env z sz = Some (Inr (length wr), z1, wr) \<and>
           prefix wr rp \<and> length wr \<le> sz \<and> c \<le> length rc \<and>
           stream rest (fda z1) = drop c rc @ after \<and>
           (c = length rc \<longrightarrow> eof z1 \<and> wr = rp) \<and>
           (c \<noteq> length rc \<longrightarrow>
              \<not> eof z1 \<and> length wr = sz \<and> R (lzma z1) (drop c rc) (drop (length wr) rp))"
  using read_loop_frame [OF eng src assms(3-6), of 0 "[]"] assms(5,6)
  by (simp add: xzreader_read_def)

lemma main_read_loop_frame:
  assumes eng: "engine_ok env R" and src: "source_ok env rest"
  shows "R (lzma z) rc rp \<Longrightarrow> stream rest (fda z) = rc @ after \<Longrightarrow> 0 < sz \<Longrightarrow> \<not> eof z \<Longrightarrow>
         \<exists>z1. main_read_loop env z sz stdout = Some (None, z1, stdout @ rp) \<and> eof z1 \<and>
              stream rest (fda z1) = after"
proof (induction "length rc + length rp" arbitrary: z rc rp stdout rule: less_induct)
  case less
  from read_frame [OF eng src less.prems]
  obtain wr z1 c where rd: "xzreader_read env z sz = Some (Inr (length wr), z1, wr)"
    and pre: "prefix wr rp" and len: "length wr \<le> sz" and c: "c \<le> length rc"
    and st: "stream rest (fda z1) = drop c rc @ after"
    and fin1: "c = length rc \<longrightarrow> eof z1 \<and> wr = rp"
    and fin2: "c \<noteq> length rc \<longrightarrow>
            \<not> eof z1 \<and> length wr = sz \<and> R (lzma z1) (drop c rc) (drop (length wr) rp)"
    by blast
  show ?case
  proof (cases "c = length rc")
    case True
    with fin1 st have e: "eof z1" and w: "wr = rp" and s: "stream rest (fda z1) = after" by simp_all
    have again: "main_read_loop env z1 sz acc = Some (None, z1, acc)" for acc
      by (subst main_read_loop.simps) (simp add: xzreader_read_def e)
    have "main_read_loop env z sz stdout = Some (None, z1, stdout @ rp)"
      by (subst main_read_loop.simps) (simp add: rd again w)
    with e s show ?thesis by blast
  next
    case False
    with fin2 have "\<not> eof z1 \<and> length wr = sz \<and> R (lzma z1) (drop c rc) (drop (length wr) rp)"
      by blast
    then have ne: "\<not> eof z1" and full: "length wr = sz"
      and R1: "R (lzma z1) (drop c rc) (drop (length wr) rp)" by blast+
    from full less.prems(3) have pos: "0 < length wr" by simp
    have go: "main_read_loop env z sz stdout = main_read_loop env z1 sz (stdout @ wr)"
      using pos by (subst main_read_loop.simps) (simp add: rd)
    from pre have lwr: "length wr \<le> length rp" by (rule prefix_length_le)
    have dec: "length (drop c rc) + length (drop (length wr) rp) < length rc + length rp"
      using pos lwr unfolding length_drop by linarith
    from less.hyps [OF dec R1 st less.prems(3) ne, of "stdout @ wr"]
    obtain z2 where res: "main_read_loop env z1 sz (stdout @ wr) =
                            Some (None, z2, (stdout @ wr) @ drop (length wr) rp)"
      and e2: "eof z2" and s2: "stream rest (fda z2) = after" by blast
    from pre have "wr @ drop (length wr) rp = rp" by (auto simp: prefix_def)
    with go res have "main_read_loop env z sz stdout = Some (None, z2, stdout @ rp)" by simp
    with e2 s2 show ?thesis by blast
  qed
qed

lemma begin_frame:
  assumes src: "source_ok env rest" and acc: "accepts env R l c p"
      and st: "stream rest f = c @ after"
  shows "\<exists>l1 f1. xzreader_begin env l f = (Inr 1, l1, f1) \<and>
           R l1 (drop LZMA_STREAM_HEADER_SIZE c) p \<and>
           stream rest f1 = drop LZMA_STREAM_HEADER_SIZE c @ after"
proof -
  have pos: "0 < LZMA_STREAM_HEADER_SIZE" by (simp add: LZMA_STREAM_HEADER_SIZE_def)
  from acc have len: "LZMA_STREAM_HEADER_SIZE \<le> length c" by (simp add: accepts_def)
  obtain f1 where rd: "reada env f LZMA_STREAM_HEADER_SIZE =
                         (Inr (take LZMA_STREAM_HEADER_SIZE (stream rest f)), f1)"
    and st1: "stream rest f1 = drop LZMA_STREAM_HEADER_SIZE (stream rest f)"
    using source_ok_reada [OF src pos, of f] by auto
  from st len have tk: "take LZMA_STREAM_HEADER_SIZE (stream rest f) = take LZMA_STREAM_HEADER_SIZE c"
    by simp
  from st len st1 have st2: "stream rest f1 = drop LZMA_STREAM_HEADER_SIZE c @ after" by simp
  obtain zret wr l1 where code:
    "lzma_code env
       (l\<lparr>next_in := take LZMA_STREAM_HEADER_SIZE c,
          avail_in := LZMA_STREAM_HEADER_SIZE, avail_out := 0\<rparr>) LZMA_RUN = (zret, wr, l1)"
    by (cases "lzma_code env
       (l\<lparr>next_in := take LZMA_STREAM_HEADER_SIZE c,
          avail_in := LZMA_STREAM_HEADER_SIZE, avail_out := 0\<rparr>) LZMA_RUN")
  with acc have ok: "zret = LZMA_OK" "avail_in l1 = 0" "R l1 (drop LZMA_STREAM_HEADER_SIZE c) p"
    unfolding accepts_def by blast+
  have "xzreader_begin env l f = (Inr 1, l1, f1)"
    using rd tk code ok len pos by (simp add: xzreader_begin_def)
  with ok(3) st2 show ?thesis by blast
qed

text \<open>The small source and decoder meet the contracts.\<close>

lemma demo_source_ok: "source_ok demo_env (\<lambda>d. d)"
  unfolding source_ok_def
  by (auto simp: demo_env_def demo_peeka_def demo_reada_def stream_def min_def)

lemma demo_enc_nonempty: "demo_enc p \<noteq> []"
  by (cases p) simp_all

lemma demo_accepts:
  assumes "internal l = Fresh"
  shows "accepts demo_env demo_R l (demo_frame p) p"
  using assms
  by (auto simp: accepts_def demo_env_def demo_code_def demo_header_def demo_frame_def
                 demo_magic_def demo_R_def LZMA_STREAM_HEADER_SIZE_def)

lemma demo_header_sound: "header_sound demo_env demo_R l (demo_frame p) p"
  by (cases "internal l")
     (auto simp: header_sound_def demo_env_def demo_code_def demo_header_def demo_frame_def
                 demo_magic_def demo_R_def LZMA_STREAM_HEADER_SIZE_def Let_def
           split: if_splits)

lemma demo_R_nonempty: "demo_R l rc rp \<Longrightarrow> rc \<noteq> []"
  by (cases rp) (auto simp: demo_R_def)

lemma demo_code_step:
  assumes R: "demo_R l rc rp" and w: "w \<noteq> []" and k: "0 < k"
      and compat: "prefix w rc \<or> prefix rc w"
      and code: "demo_code (l\<lparr>next_in := w, avail_in := length w, avail_out := k\<rparr>) LZMA_RUN =
                   (zret, wr, l1)"
  shows "avail_in l1 \<le> length w \<and>
       avail_out l1 \<le> k \<and>
       length wr = k - avail_out l1 \<and>
       length w - avail_in l1 \<le> length rc \<and>
       prefix wr rp \<and>
       (0 < length w - avail_in l1 \<or> wr \<noteq> []) \<and>
       (if length w - avail_in l1 = length rc then zret = LZMA_STREAM_END \<and> wr = rp
        else zret = LZMA_OK \<and>
             demo_R l1 (drop (length w - avail_in l1) rc) (drop (length wr) rp))"
proof -
  from w obtain x xs where w: "w = x # xs" by (cases w) auto
  from R consider (fin) "internal l = Body" "rp = []" "rc = [0]"
    | (body) a rp' where "internal l = Body" "rp = a # rp'" "rc = 1 # a # demo_enc rp'"
    | (lit) a rp' where "internal l = Lit" "rp = a # rp'" "rc = a # demo_enc rp'"
    by (cases rp) (auto simp: demo_R_def)
  then show ?thesis
  proof cases
    case fin
    with compat w have x: "x = 0" by auto
    from code fin x w show ?thesis
      by (auto simp: demo_code_def)
  next
    case body
    with compat w have x: "x = 1" by auto
    from code body x w show ?thesis
      by (auto simp: demo_code_def demo_R_def)
  next
    case lit
    with compat w have x: "x = a" by auto
    from code lit x w k show ?thesis
      by (auto simp: demo_code_def demo_R_def demo_enc_nonempty)
  qed
qed

lemma demo_engine_ok: "engine_ok demo_env demo_R"
  unfolding engine_ok_def
proof (intro conjI)
  show "\<forall>l rc rp. demo_R l rc rp \<longrightarrow> rc \<noteq> []"
    using demo_R_nonempty by blast
  show "\<forall>l rc rp w k zret wr l1.
       demo_R l rc rp \<and> w \<noteq> [] \<and> 0 < k \<and> (prefix w rc \<or> prefix rc w) \<and>
       lzma_code demo_env (l\<lparr>next_in := w, avail_in := length w, avail_out := k\<rparr>) LZMA_RUN =
       (zret, wr, l1) \<longrightarrow>
       avail_in l1 \<le> length w \<and>
       avail_out l1 \<le> k \<and>
       length wr = k - avail_out l1 \<and>
       length w - avail_in l1 \<le> length rc \<and>
       prefix wr rp \<and>
       (0 < length w - avail_in l1 \<or> wr \<noteq> []) \<and>
       (if length w - avail_in l1 = length rc then zret = LZMA_STREAM_END \<and> wr = rp
        else zret = LZMA_OK \<and>
             demo_R l1 (drop (length w - avail_in l1) rc) (drop (length wr) rp))"
  proof (intro allI impI)
    fix l rc rp w k zret wr l1
    assume a: "demo_R l rc rp \<and> w \<noteq> [] \<and> 0 < k \<and> (prefix w rc \<or> prefix rc w) \<and>
       lzma_code demo_env (l\<lparr>next_in := w, avail_in := length w, avail_out := k\<rparr>) LZMA_RUN =
       (zret, wr, l1)"
    then have code: "demo_code (l\<lparr>next_in := w, avail_in := length w, avail_out := k\<rparr>) LZMA_RUN =
       (zret, wr, l1)"
      by (simp add: demo_env_def)
    from a have R: "demo_R l rc rp" and w: "w \<noteq> []" and k: "0 < k"
      and compat: "prefix w rc \<or> prefix rc w" by blast+
    from demo_code_step [OF R w k compat code]
    show "avail_in l1 \<le> length w \<and>
       avail_out l1 \<le> k \<and>
       length wr = k - avail_out l1 \<and>
       length w - avail_in l1 \<le> length rc \<and>
       prefix wr rp \<and>
       (0 < length w - avail_in l1 \<or> wr \<noteq> []) \<and>
       (if length w - avail_in l1 = length rc then zret = LZMA_STREAM_END \<and> wr = rp
        else zret = LZMA_OK \<and>
             demo_R l1 (drop (length w - avail_in l1) rc) (drop (length wr) rp))" .
  qed
qed

text \<open>The loop started in a state is the loop continued from any state it reaches.\<close>

lemma passes_loop:
  assumes "passes env s t"
  shows "read_loop env (fst s) (fst (snd s)) (fst (snd (snd s))) (snd (snd (snd s))) =
         read_loop env (fst t) (fst (snd t)) (fst (snd (snd t))) (snd (snd (snd t)))"
  using assms
proof induction
  case (pass_first z sz n z1 wr tot out)
  then show ?case by (subst read_loop.simps) simp
next
  case (pass_next s z sz tot out n z1 wr)
  have "read_loop env z sz tot out =
        read_loop env z1 (avail_out (lzma z1)) (tot + n) (out @ wr)"
    using pass_next.hyps(2,3,4) by (subst read_loop.simps) simp
  with pass_next.IH show ?case by simp
qed

text \<open>
  The header probe on any stream: it consumes the header, and returns 1 only with the
  decoder inside the frame.
\<close>

lemma begin_sound:
  assumes src: "source_ok env rest" and len: "LZMA_STREAM_HEADER_SIZE \<le> length c"
      and hs: "header_sound env R l c p" and st: "stream rest f = c @ after"
  shows "\<exists>r l1 f1. xzreader_begin env l f = (r, l1, f1) \<and>
           stream rest f1 = drop LZMA_STREAM_HEADER_SIZE c @ after \<and>
           (r = Inr 1 \<or> (\<exists>e. r = Inl e)) \<and>
           (r = Inr 1 \<longrightarrow> R l1 (drop LZMA_STREAM_HEADER_SIZE c) p)"
proof -
  have pos: "0 < LZMA_STREAM_HEADER_SIZE" by (simp add: LZMA_STREAM_HEADER_SIZE_def)
  obtain f1 where rd: "reada env f LZMA_STREAM_HEADER_SIZE =
                         (Inr (take LZMA_STREAM_HEADER_SIZE (stream rest f)), f1)"
    and st1: "stream rest f1 = drop LZMA_STREAM_HEADER_SIZE (stream rest f)"
    using source_ok_reada [OF src pos, of f] by auto
  from st len have tk: "take LZMA_STREAM_HEADER_SIZE (stream rest f) = take LZMA_STREAM_HEADER_SIZE c"
    by simp
  from st len st1 have st2: "stream rest f1 = drop LZMA_STREAM_HEADER_SIZE c @ after" by simp
  obtain zret wr l1 where code:
    "lzma_code env
       (l\<lparr>next_in := take LZMA_STREAM_HEADER_SIZE c,
          avail_in := LZMA_STREAM_HEADER_SIZE, avail_out := 0\<rparr>) LZMA_RUN = (zret, wr, l1)"
    by (cases "lzma_code env
       (l\<lparr>next_in := take LZMA_STREAM_HEADER_SIZE c,
          avail_in := LZMA_STREAM_HEADER_SIZE, avail_out := 0\<rparr>) LZMA_RUN")
  from hs code have R: "zret = LZMA_OK \<Longrightarrow> avail_in l1 = 0 \<Longrightarrow> R l1 (drop LZMA_STREAM_HEADER_SIZE c) p"
    unfolding header_sound_def by blast
  have b: "xzreader_begin env l f =
             (if zret \<noteq> LZMA_OK then Inl (ERRXZ ''lzma_code'' zret)
              else if avail_in l1 \<noteq> 0 then Inl (ABORT ''lzma->avail_in == 0'')
              else Inr 1, l1, f1)"
    using rd tk code len pos by (simp add: xzreader_begin_def)
  show ?thesis
  proof (cases "zret = LZMA_OK \<and> avail_in l1 = 0")
    case True
    with b R st2 show ?thesis by auto
  next
    case False
    with b st2 show ?thesis by auto
  qed
qed

section \<open>Reading after the frame is complete\<close>

text \<open>
  Claim C6 (idempotent exhaustion). A read on a reader whose frame-complete flag is set
  returns 0 and leaves the reader, with its source and its window, exactly as it was;
  nothing is written. The result is the same for any collaborators and any capacity, so
  neither the source nor the decoder takes part in it; since the reader comes back
  unchanged, the same holds for every further read.
\<close>

theorem read_after_eof:
  "eof z \<Longrightarrow> xzreader_read env z sz = Some (Inr 0, z, []) \<and>
     xzreader_read env z sz = xzreader_read env' z sz'"
  by (simp add: xzreader_read_def)

theorem read_after_eof_witness:
  "eof demo_done \<and> xzreader_read demo_env demo_done 5 = Some (Inr 0, demo_done, []) \<and>
   xzreader_read demo_env demo_done 5 = xzreader_read demo_env_nomem demo_done 7"
proof -
  have e: "eof demo_done" by (simp add: demo_done_def)
  from read_after_eof [OF e, of demo_env 5 demo_env_nomem 7] e show ?thesis by blast
qed

section \<open>End of input inside a frame\<close>

text \<open>
  Claim C4 (mid-frame truncation). Whenever a pass of the read loop asks the source for
  bytes and the source reports none, the read fails with the error
  \<^verbatim>\<open>("xzreader_read", "unexpected EOF")\<close> and returns no count, whatever count and
  bytes earlier passes had gathered; in particular a read call on a reader whose frame
  is not complete fails so when its first request finds the source exhausted.
\<close>

theorem read_unexpected_eof:
  assumes "peeka env (fda z) 4 = (Inr 0, f1)"
  shows "read_loop env z sz tot out =
           Some (Inl (ERRSTR ''xzreader_read'' ''unexpected EOF''), z\<lparr>fda := f1\<rparr>, out) \<and>
         (\<not> eof z \<and> 0 < sz \<longrightarrow>
            xzreader_read env z sz =
              Some (Inl (ERRSTR ''xzreader_read'' ''unexpected EOF''), z\<lparr>fda := f1\<rparr>, []))"
proof -
  have loop: "read_loop env z sz tot out =
           Some (Inl (ERRSTR ''xzreader_read'' ''unexpected EOF''), z\<lparr>fda := f1\<rparr>, out)"
    for tot out
    by (subst read_loop.simps) (simp add: read_iter_eof [OF assms])
  then show ?thesis by (simp add: xzreader_read_def)
qed

theorem read_unexpected_eof_witness:
  "peeka demo_env (fda (demo_mid [])) 4 = (Inr 0, demo_src []) \<and>
   read_loop demo_env (demo_mid []) 8 0 [] =
     Some (Inl (ERRSTR ''xzreader_read'' ''unexpected EOF''), demo_mid [], []) \<and>
   xzreader_read demo_env (demo_mid []) 8 =
     Some (Inl (ERRSTR ''xzreader_read'' ''unexpected EOF''), demo_mid [], [])"
proof -
  have pk: "peeka demo_env (fda (demo_mid [])) 4 = (Inr 0, demo_src [])"
    by (simp add: demo_defs)
  have z: "(demo_mid [])\<lparr>fda := demo_src []\<rparr> = demo_mid []" "\<not> eof (demo_mid [])"
    by (simp_all add: demo_defs)
  from read_unexpected_eof [OF pk, of 8 0 "[]"] pk z show ?thesis by simp
qed

section \<open>The handle written by open\<close>

text \<open>
  Claim C10 (out-parameter of open). Open stores a reader into the caller's handle
  variable exactly when it returns 1; with every other result (0 for empty input, or any
  failure: a rejected header, a failed allocation, a failed read, a failed construction
  of the decoder) the variable holds what it held before the call.
\<close>

theorem open_handle:
  assumes "xzreader_open env zp f = (r, zp', f')"
  shows "(r = Inr 1 \<longrightarrow> (\<exists>l1. zp' = Some \<lparr>fda = f', lzma = l1, eof = False\<rparr>)) \<and>
         (r \<noteq> Inr 1 \<longrightarrow> zp' = zp)"
  using assms
  by (auto simp: xzreader_open_def split: prod.splits if_splits sum.splits option.splits)

theorem open_handle_witness:
  "xzreader_open demo_env None (demo_src (demo_frame [65])) =
     (Inr 1,
      Some \<lparr>fda = \<lparr>fd = [1, 65, 0], win = []\<rparr>,
            lzma = \<lparr>next_in = [], avail_in = 0, avail_out = 0, internal = Body\<rparr>,
            eof = False\<rparr>,
      \<lparr>fd = [1, 65, 0], win = []\<rparr>) \<and>
   xzreader_open demo_env (Some demo_done) (demo_src [1, 2, 3]) =
     (Inl (ERRSTR ''xzreader_begin'' ''input too small''), Some demo_done,
      \<lparr>fd = [], win = []\<rparr>)"
proof -
  have a: "xzreader_open demo_env None (demo_src (demo_frame [65])) =
     (Inr 1,
      Some \<lparr>fda = \<lparr>fd = [1, 65, 0], win = []\<rparr>,
            lzma = \<lparr>next_in = [], avail_in = 0, avail_out = 0, internal = Body\<rparr>,
            eof = False\<rparr>,
      \<lparr>fd = [1, 65, 0], win = []\<rparr>)"
    by (simp add: xzreader_open_def xzreader_begin_def demo_defs)
  have b: "xzreader_open demo_env (Some demo_done) (demo_src [1, 2, 3]) =
     (Inl (ERRSTR ''xzreader_begin'' ''input too small''), Some demo_done,
      \<lparr>fd = [], win = []\<rparr>)"
    by (simp add: xzreader_open_def xzreader_begin_def demo_defs)
  from open_handle [OF a] open_handle [OF b] a b show ?thesis by simp
qed

section \<open>Reopen\<close>

text \<open>
  Claim C5 (reopen). With \<open>src\<close> the source reopen works on (the new one when given,
  else the reader's): when the frame-complete flag is set at entry, the header probe
  \<open>xzreader_begin\<close> runs on the reader's own stream; when it is not, the stream is
  replaced by a newly constructed one and the probe runs on that, unless the
  construction fails, which fails reopen as it fails open. The flag is clear afterwards,
  the result is 1, 0 or a failure, and on a replaced stream it is the result open gives
  on the same source, with the same reader, as long as open's allocation succeeds.
\<close>

theorem reopen_behaviour:
  assumes src: "src = (case fo of Some f \<Rightarrow> f | None \<Rightarrow> fda z)"
  shows "(eof z \<longrightarrow>
            (case xzreader_begin env (lzma z) src of
               (rc, l1, f1) \<Rightarrow>
                 xzreader_reopen env z fo = (rc, \<lparr>fda = f1, lzma = l1, eof = False\<rparr>))) \<and>
         (\<not> eof z \<longrightarrow>
            (case lzma_stream_decoder env (LZMA_STREAM_INIT env) MEMLIMIT 0 of
               (zret, l) \<Rightarrow>
                 if zret = LZMA_OK then
                   (case xzreader_begin env l src of
                      (rc, l1, f1) \<Rightarrow>
                        xzreader_reopen env z fo = (rc, \<lparr>fda = f1, lzma = l1, eof = False\<rparr>))
                 else xzreader_reopen env z fo =
                        (Inl (ERRXZ ''lzma_stream_decoder'' zret),
                         \<lparr>fda = src, lzma = l, eof = False\<rparr>))) \<and>
         \<not> eof (snd (xzreader_reopen env z fo)) \<and>
         (fst (xzreader_reopen env z fo) = Inr 1 \<or> fst (xzreader_reopen env z fo) = Inr 0 \<or>
          (\<exists>e. fst (xzreader_reopen env z fo) = Inl e)) \<and>
         (\<not> eof z \<and> malloc env = None \<longrightarrow>
            fst (xzreader_reopen env z fo) = fst (xzreader_open env zp src) \<and>
            (fst (xzreader_reopen env z fo) = Inr 1 \<longrightarrow>
               fst (snd (xzreader_open env zp src)) = Some (snd (xzreader_reopen env z fo))))"
proof -
  obtain zret l where dec: "lzma_stream_decoder env (LZMA_STREAM_INIT env) MEMLIMIT 0 = (zret, l)"
    by (cases "lzma_stream_decoder env (LZMA_STREAM_INIT env) MEMLIMIT 0")
  obtain rc l1 f1 where b1: "xzreader_begin env (lzma z) src = (rc, l1, f1)"
    by (cases "xzreader_begin env (lzma z) src")
  obtain rc' l1' f1' where b2: "xzreader_begin env l src = (rc', l1', f1')"
    by (cases "xzreader_begin env l src")
  note c1 = begin_code [OF b1] and c2 = begin_code [OF b2]
  have e: "eof z \<Longrightarrow> xzreader_reopen env z fo = (rc, \<lparr>fda = f1, lzma = l1, eof = False\<rparr>)"
    using b1 src by (cases z) (simp add: xzreader_reopen_def split: option.splits)
  have n1: "\<not> eof z \<Longrightarrow> zret = LZMA_OK \<Longrightarrow>
        xzreader_reopen env z fo = (rc', \<lparr>fda = f1', lzma = l1', eof = False\<rparr>)"
    using b2 src dec by (cases z) (simp add: xzreader_reopen_def split: option.splits)
  have n2: "\<not> eof z \<Longrightarrow> zret \<noteq> LZMA_OK \<Longrightarrow>
        xzreader_reopen env z fo =
          (Inl (ERRXZ ''lzma_stream_decoder'' zret), \<lparr>fda = src, lzma = l, eof = False\<rparr>)"
    using src dec by (cases z) (simp add: xzreader_reopen_def split: option.splits)
  have o1: "malloc env = None \<Longrightarrow> zret = LZMA_OK \<Longrightarrow>
        fst (xzreader_open env zp src) = rc' \<and>
        (rc' = Inr 1 \<longrightarrow>
           fst (snd (xzreader_open env zp src)) = Some \<lparr>fda = f1', lzma = l1', eof = False\<rparr>)"
    using b2 dec c2 by (auto simp: xzreader_open_def)
  have o2: "zret \<noteq> LZMA_OK \<Longrightarrow>
        fst (xzreader_open env zp src) = Inl (ERRXZ ''lzma_stream_decoder'' zret)"
    using dec by (simp add: xzreader_open_def)
  show ?thesis
  proof (cases "eof z")
    case True
    with e c1 b1 show ?thesis by auto
  next
    case False
    show ?thesis
    proof (cases "zret = LZMA_OK")
      case True
      with False n1 o1 c2 b2 dec show ?thesis by auto
    next
      case ne: False
      with False n2 o2 dec show ?thesis by auto
    qed
  qed
qed

text \<open>
  Two readers with the same unusable decoder: the one whose frame is complete keeps it
  and the probe fails; the other gets a new decoder and the probe succeeds, as open does.
\<close>

theorem reopen_behaviour_witness:
  "xzreader_reopen demo_env (demo_stale True) None =
     (Inl (ERRXZ ''lzma_code'' LZMA_PROG_ERROR),
      \<lparr>fda = \<lparr>fd = [0], win = []\<rparr>,
       lzma = \<lparr>next_in = demo_magic, avail_in = 12, avail_out = 0, internal = Bad\<rparr>,
       eof = False\<rparr>) \<and>
   xzreader_reopen demo_env (demo_stale False) None =
     (Inr 1,
      \<lparr>fda = \<lparr>fd = [0], win = []\<rparr>,
       lzma = \<lparr>next_in = [], avail_in = 0, avail_out = 0, internal = Body\<rparr>,
       eof = False\<rparr>) \<and>
   fst (xzreader_open demo_env None (demo_src (demo_frame []))) = Inr 1"
proof -
  have s: "demo_src (demo_frame []) = (case None of Some f \<Rightarrow> f | None \<Rightarrow> fda (demo_stale e))"
    for e
    by (simp add: demo_stale_def)
  have m: "malloc demo_env = None" by (simp add: demo_env_def)
  have b1: "xzreader_begin demo_env (lzma (demo_stale True)) (demo_src (demo_frame [])) =
     (Inl (ERRXZ ''lzma_code'' LZMA_PROG_ERROR),
      \<lparr>next_in = demo_magic, avail_in = 12, avail_out = 0, internal = Bad\<rparr>,
      \<lparr>fd = [0], win = []\<rparr>)"
    by (simp add: xzreader_begin_def demo_defs)
  have d: "lzma_stream_decoder demo_env (LZMA_STREAM_INIT demo_env) MEMLIMIT 0 =
             (LZMA_OK, demo_init)"
    by (simp add: demo_defs)
  have b2: "xzreader_begin demo_env demo_init (demo_src (demo_frame [])) =
     (Inr 1, \<lparr>next_in = [], avail_in = 0, avail_out = 0, internal = Body\<rparr>,
      \<lparr>fd = [0], win = []\<rparr>)"
    by (simp add: xzreader_begin_def demo_defs)
  have e: "eof (demo_stale True)" "\<not> eof (demo_stale False)" by (simp_all add: demo_stale_def)
  from reopen_behaviour [OF s [of True], of demo_env None]
       reopen_behaviour [OF s [of False], of demo_env None] b1 b2 d e m
  show ?thesis by auto
qed

section \<open>The outcomes of open\<close>

text \<open>
  Claim C3 (outcomes of open), as the code has it. Once the decoder is constructed and
  the source has answered the request for the twelve header bytes: with no byte open
  returns 0 and leaves the handle alone; with some but fewer than twelve it fails with
  \<^verbatim>\<open>("xzreader_begin", "input too small")\<close>; with all twelve they are fed to the
  decoder with no output space, any code but \<open>LZMA_OK\<close> fails open with that code, and
  on \<open>LZMA_OK\<close> with the header consumed open returns 1 and a reader whose flag is
  clear, provided the reader can be allocated: when the allocation fails, open fails
  with the errno of \<^verbatim>\<open>malloc\<close> and stores no reader.
\<close>

theorem open_outcomes:
  assumes dec: "lzma_stream_decoder env (LZMA_STREAM_INIT env) MEMLIMIT 0 = (LZMA_OK, l)"
      and rd: "reada env f LZMA_STREAM_HEADER_SIZE = (Inr buf, f1)"
      and code: "lzma_code env
                   (l\<lparr>next_in := buf, avail_in := LZMA_STREAM_HEADER_SIZE, avail_out := 0\<rparr>)
                   LZMA_RUN = (zret, wr, l1)"
  shows "(buf = [] \<longrightarrow> xzreader_open env zp f = (Inr 0, zp, f1)) \<and>
         (buf \<noteq> [] \<and> length buf < LZMA_STREAM_HEADER_SIZE \<longrightarrow>
            xzreader_open env zp f =
              (Inl (ERRSTR ''xzreader_begin'' ''input too small''), zp, f1)) \<and>
         (LZMA_STREAM_HEADER_SIZE \<le> length buf \<and> zret \<noteq> LZMA_OK \<longrightarrow>
            xzreader_open env zp f = (Inl (ERRXZ ''lzma_code'' zret), zp, f1)) \<and>
         (LZMA_STREAM_HEADER_SIZE \<le> length buf \<and> zret = LZMA_OK \<and> avail_in l1 = 0 \<longrightarrow>
            (case malloc env of
               None \<Rightarrow> xzreader_open env zp f =
                         (Inr 1, Some \<lparr>fda = f1, lzma = l1, eof = False\<rparr>, f1)
             | Some errno \<Rightarrow> xzreader_open env zp f = (Inl (ERRNO ''malloc'' errno), zp, f1)))"
  using dec rd code
  by (auto simp: xzreader_open_def xzreader_begin_def LZMA_STREAM_HEADER_SIZE_def
           split: option.splits)

theorem open_outcomes_witness:
  "xzreader_open demo_env None (demo_src (demo_frame [65])) =
     (Inr 1,
      Some \<lparr>fda = \<lparr>fd = [1, 65, 0], win = []\<rparr>,
            lzma = \<lparr>next_in = [], avail_in = 0, avail_out = 0, internal = Body\<rparr>,
            eof = False\<rparr>,
      \<lparr>fd = [1, 65, 0], win = []\<rparr>)"
proof -
  have dec: "lzma_stream_decoder demo_env (LZMA_STREAM_INIT demo_env) MEMLIMIT 0 =
               (LZMA_OK, demo_init)"
    by (simp add: demo_defs)
  have rd: "reada demo_env (demo_src (demo_frame [65])) LZMA_STREAM_HEADER_SIZE =
              (Inr demo_magic, \<lparr>fd = [1, 65, 0], win = []\<rparr>)"
    by (simp add: demo_defs)
  have code: "lzma_code demo_env
                (demo_init\<lparr>next_in := demo_magic, avail_in := LZMA_STREAM_HEADER_SIZE,
                            avail_out := 0\<rparr>)
                LZMA_RUN =
              (LZMA_OK, [], \<lparr>next_in = [], avail_in = 0, avail_out = 0, internal = Body\<rparr>)"
    by (simp add: demo_defs)
  have m: "malloc demo_env = None" by (simp add: demo_env_def)
  have len: "LZMA_STREAM_HEADER_SIZE \<le> length demo_magic" by (simp add: demo_defs)
  from open_outcomes [OF dec rd code, of None] m len show ?thesis by simp
qed

text \<open>
  The full header is obtained and the decoder accepts it, yet open fails and stores no
  reader: the allocation failed.
\<close>

theorem open_nomem_counterexample:
  "reada demo_env_nomem (demo_src (demo_frame [65])) LZMA_STREAM_HEADER_SIZE =
     (Inr demo_magic, \<lparr>fd = [1, 65, 0], win = []\<rparr>) \<and>
   fst (lzma_code demo_env_nomem
          (demo_init\<lparr>next_in := demo_magic, avail_in := LZMA_STREAM_HEADER_SIZE,
                      avail_out := 0\<rparr>)
          LZMA_RUN) = LZMA_OK \<and>
   xzreader_open demo_env_nomem None (demo_src (demo_frame [65])) =
     (Inl (ERRNO ''malloc'' 12), None, \<lparr>fd = [1, 65, 0], win = []\<rparr>)"
  by (simp add: xzreader_open_def xzreader_begin_def demo_defs)

section \<open>The window after a decoding step\<close>




section \<open>The count returned by read\<close>




section \<open>Round trip\<close>

text \<open>
  Claim C8 (round trip). Let the source never fail and deliver its bytes in order
  (\<open>source_ok\<close>), let the decoder decode frames (\<open>engine_ok\<close>), let its construction
  and the allocation of the reader succeed, and let \<open>compress\<close> turn every byte
  sequence \<open>p\<close> into a frame that the new decoder accepts as a frame with content
  \<open>p\<close>. Then, over a source holding \<open>compress p\<close>, open returns 1 and a reader,
  and the read loop of main.c on that reader, with any capacity \<open>sz > 0\<close>, ends
  without an error, having written exactly \<open>p\<close>, with the frame-complete flag set.
\<close>

theorem round_trip:
  assumes src: "source_ok env rest" and eng: "engine_ok env R"
      and dec: "lzma_stream_decoder env (LZMA_STREAM_INIT env) MEMLIMIT 0 = (LZMA_OK, l0)"
      and cmp: "\<forall>p. accepts env R l0 (compress p) p"
      and mem: "malloc env = None"
      and st: "stream rest f = compress p" and sz: "0 < sz"
  shows "\<exists>z z1 f1. xzreader_open env zp f = (Inr 1, Some z, f1) \<and>
           main_read_loop env z sz [] = Some (None, z1, p) \<and> eof z1"
proof -
  from cmp have acc: "accepts env R l0 (compress p) p" by blast
  from st have st': "stream rest f = compress p @ []" by simp
  from begin_frame [OF src acc st'] obtain l1 f1 where
    b: "xzreader_begin env l0 f = (Inr 1, l1, f1)"
    and R1: "R l1 (drop LZMA_STREAM_HEADER_SIZE (compress p)) p"
    and s1: "stream rest f1 = drop LZMA_STREAM_HEADER_SIZE (compress p) @ []"
    by blast
  let ?z = "\<lparr>fda = f1, lzma = l1, eof = False\<rparr>"
  have op: "xzreader_open env zp f = (Inr 1, Some ?z, f1)"
    by (simp add: xzreader_open_def dec b mem)
  from main_read_loop_frame [OF eng src, of ?z _ p "[]" sz "[]"] R1 s1 sz
  obtain z1 where "main_read_loop env ?z sz [] = Some (None, z1, p)" "eof z1"
    by auto
  with op show ?thesis by blast
qed

theorem round_trip_witness:
  "xzreader_open demo_env None (demo_src (demo_frame [65, 66])) =
     (Inr 1,
      Some \<lparr>fda = \<lparr>fd = [1, 65, 1, 66, 0], win = []\<rparr>,
            lzma = \<lparr>next_in = [], avail_in = 0, avail_out = 0, internal = Body\<rparr>,
            eof = False\<rparr>,
      \<lparr>fd = [1, 65, 1, 66, 0], win = []\<rparr>) \<and>
   main_read_loop demo_env
      \<lparr>fda = \<lparr>fd = [1, 65, 1, 66, 0], win = []\<rparr>,
       lzma = \<lparr>next_in = [], avail_in = 0, avail_out = 0, internal = Body\<rparr>,
       eof = False\<rparr> 1 [] =
     Some (None,
           \<lparr>fda = \<lparr>fd = [], win = []\<rparr>,
            lzma = \<lparr>next_in = [], avail_in = 0, avail_out = 1, internal = Done\<rparr>,
            eof = True\<rparr>,
           [65, 66])"
proof -
  have dec: "lzma_stream_decoder demo_env (LZMA_STREAM_INIT demo_env) MEMLIMIT 0 =
               (LZMA_OK, demo_init)"
    by (simp add: demo_defs)
  have cmp: "\<forall>p. accepts demo_env demo_R demo_init (demo_frame p) p"
    by (simp add: demo_accepts demo_init_def)
  have mem: "malloc demo_env = None" by (simp add: demo_env_def)
  have st: "stream (\<lambda>d. d) (demo_src (demo_frame [65, 66])) = demo_frame [65, 66]"
    by (simp add: stream_def demo_src_def)
  from round_trip [OF demo_source_ok demo_engine_ok dec cmp mem st, of 1 None]
  obtain z z1 f1 where
    op: "xzreader_open demo_env None (demo_src (demo_frame [65, 66])) = (Inr 1, Some z, f1)"
    and run: "main_read_loop demo_env z 1 [] = Some (None, z1, [65, 66])" and e: "eof z1"
    by auto
  have op': "xzreader_open demo_env None (demo_src (demo_frame [65, 66])) =
     (Inr 1,
      Some \<lparr>fda = \<lparr>fd = [1, 65, 1, 66, 0], win = []\<rparr>,
            lzma = \<lparr>next_in = [], avail_in = 0, avail_out = 0, internal = Body\<rparr>,
            eof = False\<rparr>,
      \<lparr>fd = [1, 65, 1, 66, 0], win = []\<rparr>)"
    by (simp add: xzreader_open_def xzreader_begin_def demo_defs)
  have run': "main_read_loop demo_env
      \<lparr>fda = \<lparr>fd = [1, 65, 1, 66, 0], win = []\<rparr>,
       lzma = \<lparr>next_in = [], avail_in = 0, avail_out = 0, internal = Body\<rparr>,
       eof = False\<rparr> 1 [] =
     Some (None,
           \<lparr>fda = \<lparr>fd = [], win = []\<rparr>,
            lzma = \<lparr>next_in = [], avail_in = 0, avail_out = 1, internal = Done\<rparr>,
            eof = True\<rparr>,
           [65, 66])"
    by (simp add: main_read_loop.simps xzreader_read_def read_loop.simps read_iter_def demo_defs)
  from op run e op' run' show ?thesis by simp
qed

section \<open>A read that fails after progress\<close>

text \<open>
  Claim C9 (no rollback on error). Let a call of \<^verbatim>\<open>xzreader_read\<close> on a reader whose
  frame is not complete, with capacity \<open>sz > 0\<close>, make one or more passes that return a
  count and go on, reaching the reader \<open>zk\<close> with \<open>outk\<close> stored in the destination,
  and let the next pass fail with the error \<open>e\<close>. Then the call returns \<open>e\<close> and no
  count; the reader it leaves is the one the failing pass left from \<open>zk\<close>, with its
  source as far consumed as the passes took it, and the destination holds \<open>outk\<close>
  followed by what the failing decoder call stored.
\<close>

theorem read_error_keeps_progress:
  assumes ne: "\<not> eof z" and sz: "0 < sz"
      and p: "passes env (z, sz, 0, []) (zk, szk, totk, outk)"
      and fail: "read_iter env zk szk = (Inl e, z2, wr2)"
  shows "xzreader_read env z sz = Some (Inl e, z2, outk @ wr2)"
proof -
  from passes_loop [OF p]
  have "read_loop env z sz 0 [] = read_loop env zk szk totk outk" by simp
  also have "\<dots> = Some (Inl e, z2, outk @ wr2)"
    by (subst read_loop.simps) (simp add: fail)
  finally show ?thesis using ne sz by (simp add: xzreader_read_def)
qed

text \<open>
  A frame cut after three bytes of its body: the byte 65 is stored and the three bytes
  are consumed, then the read fails; the source stays empty, the byte stays stored, and
  no count is returned.
\<close>

theorem read_error_keeps_progress_witness:
  "xzreader_read demo_env (demo_mid [1, 65, 1]) 8 =
     Some (Inl (ERRSTR ''xzreader_read'' ''unexpected EOF''),
           \<lparr>fda = \<lparr>fd = [], win = []\<rparr>,
            lzma = \<lparr>next_in = [], avail_in = 0, avail_out = 7, internal = Lit\<rparr>,
            eof = False\<rparr>, [65])"
proof -
  let ?z1 = "\<lparr>fda = \<lparr>fd = [], win = [65, 1]\<rparr>,
       lzma = \<lparr>next_in = [65, 1], avail_in = 2, avail_out = 8, internal = Lit\<rparr>,
       eof = False\<rparr> :: (demo_state, byte list) xzreader"
  let ?z2 = "\<lparr>fda = \<lparr>fd = [], win = [1]\<rparr>,
       lzma = \<lparr>next_in = [1], avail_in = 1, avail_out = 7, internal = Body\<rparr>,
       eof = False\<rparr> :: (demo_state, byte list) xzreader"
  let ?z3 = "\<lparr>fda = \<lparr>fd = [], win = []\<rparr>,
       lzma = \<lparr>next_in = [], avail_in = 0, avail_out = 7, internal = Lit\<rparr>,
       eof = False\<rparr> :: (demo_state, byte list) xzreader"
  have i1: "read_iter demo_env (demo_mid [1, 65, 1]) 8 = (Inr 0, ?z1, [])"
    by (simp add: read_iter_def demo_defs)
  have i2: "read_iter demo_env ?z1 8 = (Inr 1, ?z2, [65])"
    by (simp add: read_iter_def demo_defs)
  have i3: "read_iter demo_env ?z2 7 = (Inr 0, ?z3, [])"
    by (simp add: read_iter_def demo_defs)
  have i4: "read_iter demo_env ?z3 7 =
              (Inl (ERRSTR ''xzreader_read'' ''unexpected EOF''), ?z3, [])"
    by (simp add: read_iter_def demo_defs)
  have p1: "passes demo_env (demo_mid [1, 65, 1], 8, 0, []) (?z1, 8, 0, [])"
    using pass_first [OF i1, of 0 "[]"] by simp
  have p2: "passes demo_env (demo_mid [1, 65, 1], 8, 0, []) (?z2, 7, 1, [65])"
    using pass_next [OF p1 i2] by simp
  have p3: "passes demo_env (demo_mid [1, 65, 1], 8, 0, []) (?z3, 7, 1, [65])"
    using pass_next [OF p2 i3] by simp
  have ne: "\<not> eof (demo_mid [1, 65, 1])" by (simp add: demo_mid_def)
  from read_error_keeps_progress [OF ne _ p3 i4] show ?thesis by simp
qed

section \<open>Frame boundaries\<close>

text \<open>
  Claim C1 (boundary safety). Let the source and the decoder be as in the round trip,
  and let the bytes of the source not consumed yet be a frame \<open>c\<close> with content \<open>p\<close>
  followed by the bytes \<open>after\<close> (the frames that follow). Open followed by the read
  loop of main.c, with any capacity \<open>sz > 0\<close>, completes the frame and leaves exactly
  \<open>after\<close> unconsumed: the next byte of the source is the first byte after the frame,
  and the window holds only bytes of \<open>after\<close>, at its front and unchanged. Reopen
  consumes the header of \<open>c\<close> and nothing else, whatever it returns; it returns 1 or
  fails, and returns 1 whenever it replaces the decoder; and when it returns 1, the read
  loop completes the frame and leaves exactly \<open>after\<close>, as after open. Of a retained
  decoder only \<open>header_sound\<close> is assumed, which a decoder that refuses a second frame
  meets: with such a decoder reopen on the reader that has read the frame before fails,
  with the header of \<open>c\<close> consumed and \<open>after\<close> untouched. Before completion, what is
  left after each read is a suffix of the frame followed by \<open>after\<close> (lemma
  \<open>read_frame\<close>).
\<close>

theorem boundary_safety:
  assumes src: "source_ok env rest" and eng: "engine_ok env R"
      and dec: "lzma_stream_decoder env (LZMA_STREAM_INIT env) MEMLIMIT 0 = (LZMA_OK, l0)"
      and mem: "malloc env = None"
      and acc0: "accepts env R l0 c p"
      and hs: "eof z0 \<longrightarrow> header_sound env R (lzma z0) c p"
      and f: "f = (case fo of Some f' \<Rightarrow> f' | None \<Rightarrow> fda z0)"
      and st: "stream rest f = c @ after" and sz: "0 < sz"
  shows "(\<exists>z z1 f1. xzreader_open env zp f = (Inr 1, Some z, f1) \<and>
            main_read_loop env z sz [] = Some (None, z1, p) \<and> eof z1 \<and>
            stream rest (fda z1) = after \<and> prefix (win (fda z1)) after) \<and>
         (\<exists>r z. xzreader_reopen env z0 fo = (r, z) \<and>
            stream rest (fda z) = drop LZMA_STREAM_HEADER_SIZE c @ after \<and>
            (r = Inr 1 \<or> (\<exists>e. r = Inl e)) \<and>
            (\<not> eof z0 \<longrightarrow> r = Inr 1) \<and>
            (r = Inr 1 \<longrightarrow>
               (\<exists>z1. main_read_loop env z sz [] = Some (None, z1, p) \<and> eof z1 \<and>
                     stream rest (fda z1) = after \<and> prefix (win (fda z1)) after)))"
proof -
  have drain: "\<exists>z1. main_read_loop env \<lparr>fda = f1, lzma = l1, eof = False\<rparr> sz [] = Some (None, z1, p) \<and>
            eof z1 \<and> stream rest (fda z1) = after \<and> prefix (win (fda z1)) after"
    if "R l1 (drop LZMA_STREAM_HEADER_SIZE c) p"
       "stream rest f1 = drop LZMA_STREAM_HEADER_SIZE c @ after" for l1 f1
  proof -
    from main_read_loop_frame [OF eng src, of "\<lparr>fda = f1, lzma = l1, eof = False\<rparr>" _ p after sz "[]"]
         that sz
    obtain z1 where m: "main_read_loop env \<lparr>fda = f1, lzma = l1, eof = False\<rparr> sz [] = Some (None, z1, p)"
      and e: "eof z1" and s: "stream rest (fda z1) = after"
      by auto
    from s have "prefix (win (fda z1)) after" by (auto simp: stream_def prefix_def)
    with m e s show ?thesis by blast
  qed
  from acc0 have len: "LZMA_STREAM_HEADER_SIZE \<le> length c" by (simp add: accepts_def)
  have "\<exists>z z1 f1. xzreader_open env zp f = (Inr 1, Some z, f1) \<and>
            main_read_loop env z sz [] = Some (None, z1, p) \<and> eof z1 \<and>
            stream rest (fda z1) = after \<and> prefix (win (fda z1)) after"
  proof -
    from begin_frame [OF src acc0 st] obtain l1 f1 where
      b: "xzreader_begin env l0 f = (Inr 1, l1, f1)"
      and R1: "R l1 (drop LZMA_STREAM_HEADER_SIZE c) p"
      and s1: "stream rest f1 = drop LZMA_STREAM_HEADER_SIZE c @ after"
      by blast
    have op: "xzreader_open env zp f = (Inr 1, Some \<lparr>fda = f1, lzma = l1, eof = False\<rparr>, f1)"
      by (simp add: xzreader_open_def dec b mem)
    from drain [OF R1 s1] op show ?thesis by blast
  qed
  moreover
  have "\<exists>r z. xzreader_reopen env z0 fo = (r, z) \<and>
            stream rest (fda z) = drop LZMA_STREAM_HEADER_SIZE c @ after \<and>
            (r = Inr 1 \<or> (\<exists>e. r = Inl e)) \<and>
            (\<not> eof z0 \<longrightarrow> r = Inr 1) \<and>
            (r = Inr 1 \<longrightarrow>
               (\<exists>z1. main_read_loop env z sz [] = Some (None, z1, p) \<and> eof z1 \<and>
                     stream rest (fda z1) = after \<and> prefix (win (fda z1)) after))"
  proof (cases "eof z0")
    case True
    with hs have h: "header_sound env R (lzma z0) c p" by simp
    from begin_sound [OF src len h st] obtain r l1 f1 where
      b: "xzreader_begin env (lzma z0) f = (r, l1, f1)"
      and s1: "stream rest f1 = drop LZMA_STREAM_HEADER_SIZE c @ after"
      and rr: "r = Inr 1 \<or> (\<exists>e. r = Inl e)"
      and R1: "r = Inr 1 \<longrightarrow> R l1 (drop LZMA_STREAM_HEADER_SIZE c) p"
      by blast
    have ro: "xzreader_reopen env z0 fo = (r, \<lparr>fda = f1, lzma = l1, eof = False\<rparr>)"
      using True b f by (cases z0) (simp add: xzreader_reopen_def split: option.splits)
    have "r = Inr 1 \<longrightarrow>
               (\<exists>z1. main_read_loop env \<lparr>fda = f1, lzma = l1, eof = False\<rparr> sz [] = Some (None, z1, p) \<and> eof z1 \<and>
                     stream rest (fda z1) = after \<and> prefix (win (fda z1)) after)"
      using R1 s1 drain by blast
    with ro s1 rr True show ?thesis by simp
  next
    case False
    from begin_frame [OF src acc0 st] obtain l1 f1 where
      b: "xzreader_begin env l0 f = (Inr 1, l1, f1)"
      and R1: "R l1 (drop LZMA_STREAM_HEADER_SIZE c) p"
      and s1: "stream rest f1 = drop LZMA_STREAM_HEADER_SIZE c @ after"
      by blast
    have ro: "xzreader_reopen env z0 fo = (Inr 1, \<lparr>fda = f1, lzma = l1, eof = False\<rparr>)"
      using False b f dec by (cases z0) (simp add: xzreader_reopen_def split: option.splits)
    from drain [OF R1 s1] ro s1 show ?thesis by simp
  qed
  ultimately show ?thesis by blast
qed



text \<open>
  Three frames in one source, all in the window after the first refill. Open and the
  read loop read the first and leave the window at the second. Reopen on that reader
  keeps its decoder, which has decoded its one frame: it fails, having consumed the
  header of the second frame and no byte of the third. Reopen on a reader whose frame
  is not complete replaces the decoder and returns 1.
\<close>

theorem boundary_safety_witness:
  "xzreader_open demo_env None (demo_src demo_three) =
     (Inr 1,
      Some \<lparr>fda = \<lparr>fd = [1, 65, 0] @ demo_frame [66] @ demo_frame [67], win = []\<rparr>,
            lzma = \<lparr>next_in = [], avail_in = 0, avail_out = 0, internal = Body\<rparr>,
            eof = False\<rparr>,
      \<lparr>fd = [1, 65, 0] @ demo_frame [66] @ demo_frame [67], win = []\<rparr>) \<and>
   main_read_loop demo_env
      \<lparr>fda = \<lparr>fd = [1, 65, 0] @ demo_frame [66] @ demo_frame [67], win = []\<rparr>,
       lzma = \<lparr>next_in = [], avail_in = 0, avail_out = 0, internal = Body\<rparr>,
       eof = False\<rparr> 4 [] =
     Some (None, demo_drained, [65]) \<and>
   xzreader_reopen demo_env demo_drained None =
     (Inl (ERRXZ ''lzma_code'' LZMA_STREAM_END),
      \<lparr>fda = \<lparr>fd = [], win = [1, 66, 0] @ demo_frame [67]\<rparr>,
       lzma = \<lparr>next_in = demo_magic, avail_in = 12, avail_out = 0, internal = Done\<rparr>,
       eof = False\<rparr>) \<and>
   xzreader_reopen demo_env (demo_mid []) (Some (demo_src demo_three)) =
     (Inr 1,
      \<lparr>fda = \<lparr>fd = [1, 65, 0] @ demo_frame [66] @ demo_frame [67], win = []\<rparr>,
       lzma = \<lparr>next_in = [], avail_in = 0, avail_out = 0, internal = Body\<rparr>,
       eof = False\<rparr>)"
proof -
  let ?f = "demo_src demo_three"
  have dec: "lzma_stream_decoder demo_env (LZMA_STREAM_INIT demo_env) MEMLIMIT 0 =
               (LZMA_OK, demo_init)"
    by (simp add: demo_defs)
  have mem: "malloc demo_env = None" by (simp add: demo_env_def)
  have acc: "accepts demo_env demo_R demo_init (demo_frame q) q" for q
    by (simp add: demo_accepts demo_init_def)
  have hs: "eof z \<longrightarrow> header_sound demo_env demo_R (lzma z) (demo_frame q) q" for z q
    by (simp add: demo_header_sound)
  have fa: "?f = (case Some ?f of Some f' \<Rightarrow> f' | None \<Rightarrow> fda (demo_mid []))" by simp
  have sta: "stream (\<lambda>d. d) ?f = demo_frame [65] @ (demo_frame [66] @ demo_frame [67])"
    by (simp add: stream_def demo_src_def demo_three_def)
  have fb: "fda demo_drained = (case None of Some f' \<Rightarrow> f' | None \<Rightarrow> fda demo_drained)"
    by simp
  have stb: "stream (\<lambda>d. d) (fda demo_drained) = demo_frame [66] @ demo_frame [67]"
    by (simp add: stream_def demo_drained_def)
  note A = boundary_safety [OF demo_source_ok demo_engine_ok dec mem acc hs fa sta, of 4 None]
  note B = boundary_safety [OF demo_source_ok demo_engine_ok dec mem acc hs fb stb, of 4 None]
  have op: "xzreader_open demo_env None ?f =
     (Inr 1,
      Some \<lparr>fda = \<lparr>fd = [1, 65, 0] @ demo_frame [66] @ demo_frame [67], win = []\<rparr>,
            lzma = \<lparr>next_in = [], avail_in = 0, avail_out = 0, internal = Body\<rparr>,
            eof = False\<rparr>,
      \<lparr>fd = [1, 65, 0] @ demo_frame [66] @ demo_frame [67], win = []\<rparr>)"
    by (simp add: xzreader_open_def xzreader_begin_def demo_defs)
  have run: "main_read_loop demo_env
      \<lparr>fda = \<lparr>fd = [1, 65, 0] @ demo_frame [66] @ demo_frame [67], win = []\<rparr>,
       lzma = \<lparr>next_in = [], avail_in = 0, avail_out = 0, internal = Body\<rparr>,
       eof = False\<rparr> 4 [] =
     Some (None, demo_drained, [65])"
    by (simp add: main_read_loop.simps xzreader_read_def read_loop.simps read_iter_def demo_defs)
  have rb: "xzreader_reopen demo_env demo_drained None =
     (Inl (ERRXZ ''lzma_code'' LZMA_STREAM_END),
      \<lparr>fda = \<lparr>fd = [], win = [1, 66, 0] @ demo_frame [67]\<rparr>,
       lzma = \<lparr>next_in = demo_magic, avail_in = 12, avail_out = 0, internal = Done\<rparr>,
       eof = False\<rparr>)"
    by (simp add: xzreader_reopen_def xzreader_begin_def demo_defs)
  have ra: "xzreader_reopen demo_env (demo_mid []) (Some ?f) =
     (Inr 1,
      \<lparr>fda = \<lparr>fd = [1, 65, 0] @ demo_frame [66] @ demo_frame [67], win = []\<rparr>,
       lzma = \<lparr>next_in = [], avail_in = 0, avail_out = 0, internal = Body\<rparr>,
       eof = False\<rparr>)"
    by (simp add: xzreader_reopen_def xzreader_begin_def demo_defs)
  from A B op run rb ra show ?thesis by simp
qed

end
